theory Spec2Isabelle
  imports Main "HOL-Library.Sublist"
begin

section \<open>Message board formatting (fusemods.js)\<close>

text \<open>
  A JavaScript string is modelled as a \<^typ>\<open>string\<close>, one \<^typ>\<open>char\<close> per code unit.
  The functions below only ever inspect the ASCII characters named in the source; all other
  characters are copied.
\<close>

subsection \<open>escapeHtml\<close>

text \<open>The object literal \<^verbatim>\<open>map\<close> of \<^verbatim>\<open>escapeHtml\<close>, in source order.\<close>

definition map_entries :: "(char \<times> string) list" where
  "map_entries =
     [(CHR ''&'', ''&amp;''),
      (CHR ''<'', ''&lt;''),
      (CHR ''>'', ''&gt;''),
      (CHR 0x22, ''&quot;''),
      (CHR 0x27, ''&#039;'')]"

definition map_esc :: "char \<rightharpoonup> string" where
  "map_esc = map_of map_entries"

text \<open>The character class \<^verbatim>\<open>[&<>"']\<close> of the regular expression.\<close>

definition special_char :: "char \<Rightarrow> bool" where
  "special_char c \<longleftrightarrow> c \<in> set [CHR ''&'', CHR ''<'', CHR ''>'', CHR 0x22, CHR 0x27]"

text \<open>
  The replacement callback \<^verbatim>\<open>function(m) { return map[m]; }\<close> applied to one character
  of the input: a character outside the class is kept, a character of the class is replaced by
  its table entry (a missing entry would be rendered as the text \<^verbatim>\<open>undefined\<close>).
\<close>

definition replace_char :: "char \<Rightarrow> string" where
  "replace_char c =
     (if special_char c
      then (case map_esc c of Some s \<Rightarrow> s | None \<Rightarrow> ''undefined'')
      else [c])"

definition escapeHtml :: "string \<Rightarrow> string" where
  "escapeHtml text = concat (map replace_char text)"

subsection \<open>The code table\<close>

text \<open>
  The object literal \<^verbatim>\<open>formatMap\<close>, in source order, with its duplicate key. In an object
  literal a later entry overrides an earlier one with the same key, hence the \<^const>\<open>rev\<close>.
\<close>

definition formatMap_entries :: "(string \<times> string) list" where
  "formatMap_entries =
     [(''&0'', ''message-color-0''), (''&1'', ''message-color-1''), (''&2'', ''message-color-2''),
      (''&3'', ''message-color-3''), (''&4'', ''message-color-4''), (''&5'', ''message-color-5''),
      (''&k'', ''message-format-obfuscated''),
      (''&l'', ''message-format-bold''),
      (''&m'', ''message-format-strikethrough''),
      (''&n'', ''message-format-underline''),
      (''&i'', ''message-format-italic''),
      (''&b'', ''message-format-bold''),
      (''&i'', ''message-format-italic''),
      (''&r'', ''message-format-reset'')]"

definition formatMap :: "string \<rightharpoonup> string" where
  "formatMap = map_of (rev formatMap_entries)"

subsection \<open>Splitting the input\<close>

text \<open>The character class \<^verbatim>\<open>[0-9a-fA-FklmnoBIr]\<close>, its ranges written out.\<close>

definition code_char :: "char \<Rightarrow> bool" where
  "code_char c \<longleftrightarrow> c \<in> set (''0123456789'' @ ''abcdef'' @ ''ABCDEF'' @ ''klmnoBIr'')"

text \<open>
  \<^verbatim>\<open>originalTextContent.split(/&([0-9a-fA-FklmnoBIr])/g)\<close>: the scan goes left to right;
  \<open>cur\<close> is the text since the end of the last match. At a match the pending text and the
  captured character are pushed and the scan resumes after the two matched characters; elsewhere
  the scan moves on by one character. The rest of the input is pushed at the end. The result
  has odd length: texts at the even indices, captured characters at the odd ones.
\<close>

fun split_scan :: "string \<Rightarrow> string \<Rightarrow> string list" where
  "split_scan cur [] = [cur]"
| "split_scan cur [c] = [cur @ [c]]"
| "split_scan cur (c # d # rest) =
     (if c = CHR ''&'' \<and> code_char d
      then cur # [d] # split_scan [] rest
      else split_scan (cur @ [c]) (d # rest))"

definition split_codes :: "string \<Rightarrow> string list" where
  "split_codes text = split_scan [] text"

subsection \<open>The formatting loop\<close>

text \<open>
  The three mutable variables of \<^verbatim>\<open>formatMessageBoardText\<close>. The \<^verbatim>\<open>Set\<close> of active
  classes iterates in insertion order, so it is a list without duplicates, extended at the
  end; \<^verbatim>\<open>null\<close> is \<^const>\<open>None\<close>.
\<close>

record fmt_state =
  formattedHtml :: string
  activeClasses :: "string list"
  activeColorClass :: "string option"

definition init_state :: fmt_state where
  "init_state = \<lparr>formattedHtml = [], activeClasses = [], activeColorClass = None\<rparr>"

text \<open>\<^verbatim>\<open>Set.prototype.add\<close>.\<close>

definition set_add :: "string \<Rightarrow> string list \<Rightarrow> string list" where
  "set_add x xs = (if x \<in> set xs then xs else xs @ [x])"

text \<open>\<^verbatim>\<open>classesToApply.join(' ')\<close>.\<close>

fun join_sp :: "string list \<Rightarrow> string" where
  "join_sp [] = []"
| "join_sp [x] = x"
| "join_sp (x # y # ys) = x @ '' '' @ join_sp (y # ys)"

text \<open>
  \<^verbatim>\<open>Array.from(activeClasses)\<close> followed by the push of the colour class when that is truthy
  (neither \<^verbatim>\<open>null\<close> nor the empty string).
\<close>

definition classesToApply :: "fmt_state \<Rightarrow> string list" where
  "classesToApply st =
     activeClasses st @
       (case activeColorClass st of
          None \<Rightarrow> []
        | Some c \<Rightarrow> (if c \<noteq> [] then [c] else []))"

text \<open>The template literal and its unwrapped alternative.\<close>

definition render :: "string list \<Rightarrow> string \<Rightarrow> string" where
  \<open>render cls s =
     (if length cls > 0
      then ''<span class="'' @ join_sp cls @ ''">'' @ escapeHtml s @ ''</span>''
      else escapeHtml s)\<close>

text \<open>
  The block that both the not-found branch and the text branch run: build
  \<^verbatim>\<open>classesToApply\<close> and append the rendered piece to \<^verbatim>\<open>formattedHtml\<close>.
\<close>

definition append_piece :: "fmt_state \<Rightarrow> string \<Rightarrow> fmt_state" where
  "append_piece st s = st\<lparr>formattedHtml := formattedHtml st @ render (classesToApply st) s\<rparr>"

text \<open>One iteration of the \<^verbatim>\<open>for\<close> loop, at index \<open>i\<close> with \<open>part = parts[i]\<close>.\<close>

definition step :: "nat \<Rightarrow> string \<Rightarrow> fmt_state \<Rightarrow> fmt_state" where
  "step i part st =
     (if i mod 2 = 1 then
        (let code = CHR ''&'' # part in
         case formatMap code of
           None \<Rightarrow> append_piece st code
         | Some className \<Rightarrow>
             if className = [] then append_piece st code
             else if className = ''message-format-reset''
               then st\<lparr>activeClasses := [], activeColorClass := None\<rparr>
             else if prefix ''message-color-'' className
               then st\<lparr>activeColorClass := Some className\<rparr>
             else if prefix ''message-format-'' className
               then st\<lparr>activeClasses := set_add className (activeClasses st)\<rparr>
             else st)
      else
        (if length part > 0 then append_piece st part else st))"

fun loop :: "nat \<Rightarrow> string list \<Rightarrow> fmt_state \<Rightarrow> fmt_state" where
  "loop i [] st = st"
| "loop i (part # parts) st = loop (Suc i) parts (step i part st)"

definition formatMessageBoardText :: "string \<Rightarrow> string" where
  "formatMessageBoardText originalTextContent =
     formattedHtml (loop 0 (split_codes originalTextContent) init_state)"

section \<open>Notions for stating the properties\<close>

text \<open>
  The definitions of this section are not functions of the source. They name what the
  properties speak about: the state of the loop after some iterations, the segments that a
  run of the loop appends, what a reader of the output string finds in it (its text content
  and its class names), and the input as it is without its codes. The lemmas below tie each
  of them to the functions of the source.
\<close>

subsection \<open>The states of a run\<close>

text \<open>
  The state after the first \<open>k\<close> iterations of the loop on an input (the final state for
  every \<open>k\<close> from the number of parts on).
\<close>

definition state_after :: "nat \<Rightarrow> string \<Rightarrow> fmt_state" where
  "state_after k text = loop 0 (take k (split_codes text)) init_state"

subsection \<open>Segments\<close>

text \<open>
  What an iteration appends, before escaping and wrapping, as the branches of \<^const>\<open>step\<close>
  have it: nothing for an empty text and for a code found in the table, the part itself for
  a text, the marker and the captured character for a code that is not in the table.
\<close>

definition piece_text :: "nat \<Rightarrow> string \<Rightarrow> string option" where
  "piece_text i part =
     (if i mod 2 = 1 then
        (case formatMap (CHR ''&'' # part) of
           None \<Rightarrow> Some (CHR ''&'' # part)
         | Some className \<Rightarrow> if className = [] then Some (CHR ''&'' # part) else None)
      else (if length part > 0 then Some part else None))"

text \<open>The segments of a run of the loop: class list and raw text of every piece appended.\<close>

fun segments :: "nat \<Rightarrow> string list \<Rightarrow> fmt_state \<Rightarrow> (string list \<times> string) list" where
  "segments i [] st = []"
| "segments i (part # parts) st =
     (case piece_text i part of
        None \<Rightarrow> []
      | Some s \<Rightarrow> [(classesToApply st, s)]) @ segments (Suc i) parts (step i part st)"

subsection \<open>Reading the output\<close>

text \<open>
  The text content of a markup string: the tags (everything from \<^verbatim>\<open><\<close> to the next
  \<^verbatim>\<open>>\<close>) are dropped, then the character references are decoded (the five that
  \<^const>\<open>escapeHtml\<close> writes; the output has no other).
\<close>

fun strip_tags :: "bool \<Rightarrow> string \<Rightarrow> string" where
  "strip_tags in_tag [] = []"
| "strip_tags in_tag (c # cs) =
     (if in_tag then (if c = CHR ''>'' then strip_tags False cs else strip_tags True cs)
      else (if c = CHR ''<'' then strip_tags True cs else c # strip_tags False cs))"

fun unescapeHtml :: "string \<Rightarrow> string" where
  "unescapeHtml [] = []"
| "unescapeHtml (c # cs) =
     (if c = CHR ''&'' \<and> prefix ''amp;'' cs then CHR ''&'' # unescapeHtml (drop 4 cs)
      else if c = CHR ''&'' \<and> prefix ''lt;'' cs then CHR ''<'' # unescapeHtml (drop 3 cs)
      else if c = CHR ''&'' \<and> prefix ''gt;'' cs then CHR ''>'' # unescapeHtml (drop 3 cs)
      else if c = CHR ''&'' \<and> prefix ''quot;'' cs then CHR 0x22 # unescapeHtml (drop 5 cs)
      else if c = CHR ''&'' \<and> prefix ''#039;'' cs then CHR 0x27 # unescapeHtml (drop 5 cs)
      else c # unescapeHtml cs)"

definition text_content :: "string \<Rightarrow> string" where
  "text_content html = unescapeHtml (strip_tags False html)"

text \<open>
  The class names of a markup string: the contents of its tags are collected, and the value
  of the \<^verbatim>\<open>class\<close> attribute of every \<^verbatim>\<open>span\<close> start tag is cut at the spaces.
\<close>

fun html_tags :: "string option \<Rightarrow> string \<Rightarrow> string list" where
  "html_tags tag [] = []"
| "html_tags None (c # cs) =
     (if c = CHR ''<'' then html_tags (Some []) cs else html_tags None cs)"
| "html_tags (Some t) (c # cs) =
     (if c = CHR ''>'' then t # html_tags None cs else html_tags (Some (t @ [c])) cs)"

fun split_sp :: "string \<Rightarrow> string \<Rightarrow> string list" where
  "split_sp cur [] = (if cur = [] then [] else [cur])"
| "split_sp cur (c # cs) =
     (if c = CHR '' '' then (if cur = [] then split_sp [] cs else cur # split_sp [] cs)
      else split_sp (cur @ [c]) cs)"

definition tag_classes :: "string \<Rightarrow> string list" where
  \<open>tag_classes t =
     (if prefix ''span class="'' t
      then split_sp [] (takeWhile (\<lambda>c. c \<noteq> CHR 0x22) (drop (length ''span class="'') t))
      else [])\<close>

definition class_names :: "string \<Rightarrow> string list" where
  "class_names html = concat (map tag_classes (html_tags None html))"

subsection \<open>Recognised codes\<close>

text \<open>
  A captured character is recognised when the loop finds its code in the table (with a truthy
  class name), so that the code changes the state and appends nothing.
\<close>

definition recognised :: "char \<Rightarrow> bool" where
  "recognised d \<longleftrightarrow>
     code_char d \<and>
     (case formatMap [CHR ''&'', d] of None \<Rightarrow> False | Some className \<Rightarrow> className \<noteq> [])"

text \<open>The input without its recognised codes.\<close>

fun remove_codes :: "string \<Rightarrow> string" where
  "remove_codes [] = []"
| "remove_codes [c] = [c]"
| "remove_codes (c # d # rest) =
     (if c = CHR ''&'' \<and> recognised d then remove_codes rest
      else c # remove_codes (d # rest))"

text \<open>A run of codes, written out: the marker before every character.\<close>

definition codes :: "string \<Rightarrow> string" where
  "codes cs = concat (map (\<lambda>c. [CHR ''&'', c]) cs)"

text \<open>The six colour classes, the five format classes, and the classes of the styling contract.\<close>

definition color_classes :: "string list" where
  "color_classes =
     [''message-color-0'', ''message-color-1'', ''message-color-2'',
      ''message-color-3'', ''message-color-4'', ''message-color-5'']"

definition format_classes :: "string list" where
  "format_classes =
     [''message-format-bold'', ''message-format-strikethrough'', ''message-format-underline'',
      ''message-format-italic'', ''message-format-obfuscated'']"

definition contract_classes :: "string list" where
  "contract_classes = color_classes @ format_classes @ [''message-format-reset'']"

subsection \<open>Reachable states\<close>

text \<open>
  The states the loop can be in: the active formats are format classes, and the active
  colour is unset or one of the six colour classes.
\<close>

definition state_ok :: "fmt_state \<Rightarrow> bool" where
  "state_ok st \<longleftrightarrow>
     set (activeClasses st) \<subseteq> set format_classes \<and>
     (activeColorClass st = None \<or> (\<exists>c\<in>set color_classes. activeColorClass st = Some c))"

section \<open>Lemmas\<close>

subsection \<open>The table, the split and the loop\<close>

lemma recognised_iff: "recognised d \<longleftrightarrow> d \<in> set ''012345bklmnr''"
  by (auto simp: recognised_def code_char_def formatMap_def formatMap_entries_def)

lemma unknown_iff:
  "code_char d \<and> formatMap [CHR ''&'', d] = None \<longleftrightarrow> d \<in> set ''6789acdefABCDEFIo''"
  by (auto simp: code_char_def formatMap_def formatMap_entries_def)

lemma formatMap_range:
  "formatMap code = Some cn \<Longrightarrow> cn \<in> snd ` set formatMap_entries"
  unfolding formatMap_def by (drule map_of_SomeD) force

lemma marker_not_code: "\<not> code_char (CHR ''&'')"
  by (simp add: code_char_def)

lemma step_even: "i mod 2 = 0 \<Longrightarrow> step i part st = (if part = [] then st else append_piece st part)"
  by (simp add: step_def)

lemma step_mod: "step (Suc (Suc i)) part st = step i part st"
  by (simp add: step_def)

lemma loop_mod: "loop (Suc (Suc i)) parts st = loop i parts st"
  by (induction parts arbitrary: i st) (simp_all add: step_mod)

lemma loop_append: "loop i (ps @ qs) st = loop (i + length ps) qs (loop i ps st)"
  by (induction ps arbitrary: i st) simp_all

lemma split_scan_match:
  "code_char d \<Longrightarrow> split_scan cur (CHR ''&'' # d # rest) = cur # [d] # split_scan [] rest"
  by simp

lemma split_scan_skip:
  "\<not> (c = CHR ''&'' \<and> code_char d) \<Longrightarrow>
     split_scan cur (c # d # rest) = split_scan (cur @ [c]) (d # rest)"
  by auto

lemma split_scan_append_cur:
  "split_scan (a @ b) t = (a @ hd (split_scan b t)) # tl (split_scan b t)"
  by (induction b t rule: split_scan.induct) simp_all

lemma split_scan_cur:
  "split_scan cur t = (cur @ hd (split_scan [] t)) # tl (split_scan [] t)"
  using split_scan_append_cur [of cur "[]" t] by simp

lemma split_scan_no_marker:
  "CHR ''&'' \<notin> set t \<Longrightarrow> split_scan cur t = [cur @ t]"
  by (induction cur t rule: split_scan.induct) auto

lemma split_scan_not_Nil: "split_scan cur t \<noteq> []"
  by (induction cur t rule: split_scan.induct) simp_all

lemma split_scan_odd: "odd (length (split_scan cur t))"
  by (induction cur t rule: split_scan.induct) simp_all

lemma split_scan_code_parts:
  "k < length (split_scan cur t) \<Longrightarrow> odd k \<Longrightarrow>
     \<exists>d. split_scan cur t ! k = [d] \<and> code_char d"
proof (induction cur t arbitrary: k rule: split_scan.induct)
  case (3 cur c d rest)
  show ?case
  proof (cases "c = CHR ''&'' \<and> code_char d")
    case True
    show ?thesis
    proof (cases "k = 1")
      case True
      with \<open>c = CHR ''&'' \<and> code_char d\<close> show ?thesis by simp
    next
      case False
      with "3.prems" obtain j where k: "k = Suc (Suc j)"
        by (cases k; cases "k - 1") auto
      with "3.prems" True have "j < length (split_scan [] rest)" "odd j" by simp_all
      from "3.IH"(1) [OF True this] k True show ?thesis by simp
    qed
  next
    case False
    with "3.IH"(2) [OF False] "3.prems" show ?thesis
      by (simp add: split_scan_skip del: split_scan.simps(3))
  qed
qed simp_all

lemma loop_split_code:
  "code_char d \<Longrightarrow>
     loop 0 (split_scan cur (CHR ''&'' # d # rest)) st =
     loop 0 (split_scan [] rest) (step 1 [d] (step 0 cur st))"
  by (simp add: loop_mod)

lemma loop_split_text:
  "\<not> (c = CHR ''&'' \<and> code_char d) \<Longrightarrow>
     loop 0 (split_scan cur (c # d # rest)) st = loop 0 (split_scan (cur @ [c]) (d # rest)) st"
  by (simp add: split_scan_skip del: split_scan.simps(3))

lemma loop_prefix_cong:
  assumes "\<And>cur st. loop 0 (split_scan cur (CHR ''&'' # a)) st = loop 0 (split_scan cur (CHR ''&'' # b)) st"
  shows "loop 0 (split_scan cur (pre @ CHR ''&'' # a)) st = loop 0 (split_scan cur (pre @ CHR ''&'' # b)) st"
proof (induction cur pre arbitrary: st rule: split_scan.induct)
  case (1 cur)
  show ?case using assms by simp
next
  case (2 cur c)
  show ?case using assms [of "cur @ [c]" st] by (simp add: marker_not_code)
next
  case (3 cur c d rest)
  show ?case
  proof (cases "c = CHR ''&'' \<and> code_char d")
    case True
    with "3.IH"(1) show ?thesis by (simp add: loop_mod)
  next
    case False
    with "3.IH"(2) show ?thesis
      by (simp add: split_scan_skip del: split_scan.simps(3))
  qed
qed

subsection \<open>The steps of the loop and the reachable states\<close>

lemma formatMap_cases:
  "formatMap code = Some cn \<Longrightarrow>
     cn = ''message-format-reset'' \<or> cn \<in> set color_classes \<or> cn \<in> set format_classes"
  by (drule formatMap_range) (auto simp: formatMap_entries_def format_classes_def color_classes_def)

lemma color_class_facts:
  "cn \<in> set color_classes \<Longrightarrow>
     cn \<noteq> [] \<and> cn \<noteq> ''message-format-reset'' \<and> prefix ''message-color-'' cn"
  by (auto simp: color_classes_def)

lemma format_class_facts:
  "cn \<in> set format_classes \<Longrightarrow>
     cn \<noteq> [] \<and> cn \<noteq> ''message-format-reset'' \<and> \<not> prefix ''message-color-'' cn \<and>
     prefix ''message-format-'' cn \<and> cn \<notin> set color_classes"
  by (auto simp: format_classes_def color_classes_def)

lemma step_odd_None:
  "i mod 2 = 1 \<Longrightarrow> formatMap (CHR ''&'' # part) = None \<Longrightarrow>
     step i part st = append_piece st (CHR ''&'' # part)"
  by (simp add: step_def)

lemma step_odd_reset:
  "i mod 2 = 1 \<Longrightarrow> formatMap (CHR ''&'' # part) = Some ''message-format-reset'' \<Longrightarrow>
     step i part st = st\<lparr>activeClasses := [], activeColorClass := None\<rparr>"
  by (simp add: step_def)

lemma step_odd_color:
  "i mod 2 = 1 \<Longrightarrow> formatMap (CHR ''&'' # part) = Some cn \<Longrightarrow> cn \<in> set color_classes \<Longrightarrow>
     step i part st = st\<lparr>activeColorClass := Some cn\<rparr>"
  by (simp add: step_def color_class_facts)

lemma step_odd_format:
  "i mod 2 = 1 \<Longrightarrow> formatMap (CHR ''&'' # part) = Some cn \<Longrightarrow> cn \<in> set format_classes \<Longrightarrow>
     step i part st = st\<lparr>activeClasses := set_add cn (activeClasses st)\<rparr>"
  by (simp add: step_def format_class_facts)

lemma init_state_ok: "state_ok init_state"
  by (simp add: state_ok_def init_state_def)

lemma append_piece_ok: "state_ok (append_piece st s) = state_ok st"
  by (simp add: state_ok_def append_piece_def)

lemma step_ok:
  assumes "state_ok st"
  shows "state_ok (step i part st)"
proof (cases "i mod 2 = 1")
  case False
  then have "i mod 2 = 0" by presburger
  with assms show ?thesis by (simp add: step_even append_piece_ok)
next
  case odd: True
  show ?thesis
  proof (cases "formatMap (CHR ''&'' # part)")
    case None
    with odd assms show ?thesis by (simp add: step_odd_None append_piece_ok)
  next
    case (Some cn)
    from formatMap_cases [OF Some] consider
      "cn = ''message-format-reset''" | "cn \<in> set color_classes" | "cn \<in> set format_classes"
      by blast
    then show ?thesis
    proof cases
      case 1
      with odd Some have "step i part st = st\<lparr>activeClasses := [], activeColorClass := None\<rparr>"
        by (simp add: step_odd_reset)
      then show ?thesis by (simp add: state_ok_def)
    next
      case 2
      with odd Some have "step i part st = st\<lparr>activeColorClass := Some cn\<rparr>"
        by (simp add: step_odd_color)
      with 2 assms show ?thesis by (simp add: state_ok_def)
    next
      case 3
      with odd Some have "step i part st = st\<lparr>activeClasses := set_add cn (activeClasses st)\<rparr>"
        by (simp add: step_odd_format)
      with 3 assms show ?thesis by (simp add: state_ok_def set_add_def)
    qed
  qed
qed

lemma loop_ok: "state_ok st \<Longrightarrow> state_ok (loop i parts st)"
  by (induction parts arbitrary: i st) (simp_all add: step_ok)

lemma state_after_ok: "state_ok (state_after k text)"
  by (simp add: state_after_def loop_ok init_state_ok)

lemma classesToApply_ok:
  assumes "state_ok st"
  shows "classesToApply st =
           activeClasses st @ (case activeColorClass st of None \<Rightarrow> [] | Some c \<Rightarrow> [c])"
    and "set (classesToApply st) \<subseteq> set format_classes \<union> set color_classes"
  using assms color_class_facts
  by (auto simp: classesToApply_def state_ok_def split: option.split)

lemma step_formattedHtml:
  "formattedHtml (step i part st) =
     formattedHtml st @
       (case piece_text i part of None \<Rightarrow> [] | Some s \<Rightarrow> render (classesToApply st) s)"
  by (simp add: step_def piece_text_def append_piece_def Let_def split: option.split)

lemma loop_formattedHtml:
  "formattedHtml (loop i parts st) =
     formattedHtml st @ concat (map (\<lambda>(cls, s). render cls s) (segments i parts st))"
  by (induction parts arbitrary: i st) (simp_all add: step_formattedHtml split: option.split)

lemma segments_classes:
  "state_ok st \<Longrightarrow> (cls, s) \<in> set (segments i parts st) \<Longrightarrow>
     set cls \<subseteq> set format_classes \<union> set color_classes"
proof (induction parts arbitrary: i st)
  case (Cons part parts)
  from Cons.prems(2) consider
    "piece_text i part = Some s" "cls = classesToApply st"
    | "(cls, s) \<in> set (segments (Suc i) parts (step i part st))"
    by (auto split: option.splits)
  then show ?case
  proof cases
    case 1
    with Cons.prems(1) classesToApply_ok(2) show ?thesis by simp
  next
    case 2
    from Cons.IH [OF step_ok [OF Cons.prems(1)] 2] show ?thesis .
  qed
qed simp

lemma formatMessageBoardText_segments:
  "formatMessageBoardText text =
     concat (map (\<lambda>(cls, s). render cls s) (segments 0 (split_codes text) init_state))"
  by (simp add: formatMessageBoardText_def loop_formattedHtml init_state_def)

subsection \<open>Escaping and reading back\<close>

lemma replace_char_cases:
  "replace_char c =
     (if c = CHR ''&'' then ''&amp;'' else if c = CHR ''<'' then ''&lt;''
      else if c = CHR ''>'' then ''&gt;'' else if c = CHR 0x22 then ''&quot;''
      else if c = CHR 0x27 then ''&#039;'' else [c])"
  by (simp add: replace_char_def special_char_def map_esc_def map_entries_def)

lemma escapeHtml_Nil: "escapeHtml [] = []"
  by (simp add: escapeHtml_def)

lemma escapeHtml_Cons: "escapeHtml (c # cs) = replace_char c @ escapeHtml cs"
  by (simp add: escapeHtml_def)

lemma escapeHtml_append: "escapeHtml (a @ b) = escapeHtml a @ escapeHtml b"
  by (simp add: escapeHtml_def)

lemma replace_char_no_angle:
  "CHR ''<'' \<notin> set (replace_char c) \<and> CHR ''>'' \<notin> set (replace_char c)"
  by (simp add: replace_char_cases)

lemma escapeHtml_no_angle:
  "CHR ''<'' \<notin> set (escapeHtml s) \<and> CHR ''>'' \<notin> set (escapeHtml s)"
  by (induction s) (simp_all add: escapeHtml_Nil escapeHtml_Cons replace_char_no_angle)

lemma strip_tags_text:
  "CHR ''<'' \<notin> set a \<Longrightarrow> strip_tags False (a @ r) = a @ strip_tags False r"
  by (induction a) auto

lemma strip_tags_tag:
  "CHR ''>'' \<notin> set a \<Longrightarrow> strip_tags True (a @ CHR ''>'' # r) = strip_tags False r"
  by (induction a) auto

lemma unescapeHtml_replace_char:
  "unescapeHtml (replace_char c @ r) = c # unescapeHtml r"
  by (simp add: replace_char_cases)

lemma unescapeHtml_escapeHtml_append:
  "unescapeHtml (escapeHtml s @ r) = s @ unescapeHtml r"
  by (induction s) (simp_all add: escapeHtml_Nil escapeHtml_Cons unescapeHtml_replace_char)

lemma unescapeHtml_escapeHtml: "unescapeHtml (escapeHtml s) = s"
  using unescapeHtml_escapeHtml_append [of s "[]"] by simp

lemma html_tags_text:
  "CHR ''<'' \<notin> set a \<Longrightarrow> html_tags None (a @ r) = html_tags None r"
  by (induction a) auto

lemma html_tags_tag:
  "CHR ''>'' \<notin> set a \<Longrightarrow> html_tags (Some t) (a @ CHR ''>'' # r) = (t @ a) # html_tags None r"
  by (induction a arbitrary: t) auto

lemma split_sp_word:
  "CHR '' '' \<notin> set x \<Longrightarrow> split_sp cur (x @ r) = split_sp (cur @ x) r"
  by (induction x arbitrary: cur) auto

lemma split_sp_join_sp:
  "\<forall>x\<in>set cls. x \<noteq> [] \<and> CHR '' '' \<notin> set x \<Longrightarrow> split_sp [] (join_sp cls) = cls"
proof (induction cls rule: join_sp.induct)
  case (2 x)
  then show ?case using split_sp_word [of x "[]" "[]"] by simp
next
  case (3 x y ys)
  then show ?case using split_sp_word [of x "[]" "CHR '' '' # join_sp (y # ys)"] by simp
qed simp

lemma join_sp_chars:
  "c \<in> set (join_sp cls) \<Longrightarrow> c = CHR '' '' \<or> (\<exists>x\<in>set cls. c \<in> set x)"
  by (induction cls rule: join_sp.induct) auto

subsection \<open>Rendered segments\<close>

lemma class_chars:
  "x \<in> set format_classes \<union> set color_classes \<Longrightarrow>
     x \<noteq> [] \<and> CHR '' '' \<notin> set x \<and> CHR 0x22 \<notin> set x \<and> CHR ''>'' \<notin> set x"
  by (auto simp: format_classes_def color_classes_def)

lemma join_sp_no_close:
  assumes "set cls \<subseteq> set format_classes \<union> set color_classes"
  shows "CHR ''>'' \<notin> set (join_sp cls)" and "CHR 0x22 \<notin> set (join_sp cls)"
  using assms class_chars by (auto dest!: join_sp_chars)

lemma split_sp_classes:
  assumes "set cls \<subseteq> set format_classes \<union> set color_classes"
  shows "split_sp [] (join_sp cls) = cls"
  using assms class_chars by (intro split_sp_join_sp) blast

lemma render_Nil: "render [] s = escapeHtml s"
  by (simp add: render_def)

lemma render_span:
  \<open>cls \<noteq> [] \<Longrightarrow>
     render cls s = CHR ''<'' # (''span class="'' @ join_sp cls @ [CHR 0x22]) @ CHR ''>'' #
                      escapeHtml s @ CHR ''<'' # ''/span'' @ CHR ''>'' # []\<close>
  by (simp add: render_def)

lemma strip_tags_render:
  assumes "set cls \<subseteq> set format_classes \<union> set color_classes"
  shows "strip_tags False (render cls s @ r) = escapeHtml s @ strip_tags False r"
proof (cases "cls = []")
  case True
  then show ?thesis by (simp add: render_Nil strip_tags_text escapeHtml_no_angle)
next
  case False
  let ?t = \<open>''span class="'' @ join_sp cls @ [CHR 0x22]\<close>
  have t: "CHR ''>'' \<notin> set ?t" using join_sp_no_close(1) [OF assms] by simp
  have "strip_tags False (render cls s @ r) =
          strip_tags True (?t @ CHR ''>'' # (escapeHtml s @ CHR ''<'' # ''/span'' @ CHR ''>'' # r))"
    using False by (simp add: render_span)
  also have "\<dots> = strip_tags False (escapeHtml s @ CHR ''<'' # ''/span'' @ CHR ''>'' # r)"
    using t by (rule strip_tags_tag)
  also have "\<dots> = escapeHtml s @ strip_tags False (CHR ''<'' # ''/span'' @ CHR ''>'' # r)"
    by (simp add: strip_tags_text escapeHtml_no_angle)
  also have "strip_tags False (CHR ''<'' # ''/span'' @ CHR ''>'' # r) = strip_tags False r"
    by simp
  finally show ?thesis .
qed

lemma tag_classes_span:
  assumes "set cls \<subseteq> set format_classes \<union> set color_classes"
  shows \<open>tag_classes (''span class="'' @ join_sp cls @ [CHR 0x22]) = cls\<close>
proof -
  have "takeWhile (\<lambda>c. c \<noteq> CHR 0x22) (join_sp cls @ [CHR 0x22]) = join_sp cls"
    using join_sp_no_close(2) [OF assms] by (simp add: takeWhile_append)
  then show ?thesis by (simp add: tag_classes_def split_sp_classes [OF assms])
qed

lemma tag_classes_end: "tag_classes ''/span'' = []"
  by (simp add: tag_classes_def)

lemma html_tags_render:
  assumes "set cls \<subseteq> set format_classes \<union> set color_classes"
  shows \<open>html_tags None (render cls s @ r) =
          (if cls = [] then [] else [''span class="'' @ join_sp cls @ [CHR 0x22], ''/span''])
            @ html_tags None r\<close>
proof (cases "cls = []")
  case True
  then show ?thesis by (simp add: render_Nil html_tags_text escapeHtml_no_angle)
next
  case False
  let ?t = \<open>''span class="'' @ join_sp cls @ [CHR 0x22]\<close>
  have t: "CHR ''>'' \<notin> set ?t" using join_sp_no_close(1) [OF assms] by simp
  have "html_tags None (render cls s @ r) =
          html_tags (Some []) (?t @ CHR ''>'' # (escapeHtml s @ CHR ''<'' # ''/span'' @ CHR ''>'' # r))"
    using False by (simp add: render_span)
  also have "\<dots> = ([] @ ?t) # html_tags None (escapeHtml s @ CHR ''<'' # ''/span'' @ CHR ''>'' # r)"
    using t by (rule html_tags_tag)
  also have "html_tags None (escapeHtml s @ CHR ''<'' # ''/span'' @ CHR ''>'' # r) =
               html_tags None (CHR ''<'' # ''/span'' @ CHR ''>'' # r)"
    by (simp add: html_tags_text escapeHtml_no_angle)
  also have "\<dots> = ''/span'' # html_tags None r"
    by simp
  finally show ?thesis using False by simp
qed

lemma class_names_render:
  assumes "set cls \<subseteq> set format_classes \<union> set color_classes"
  shows "class_names (render cls s @ r) = cls @ class_names r"
  using tag_classes_span [OF assms]
  by (simp add: class_names_def html_tags_render [OF assms] tag_classes_end del: append_assoc)

lemma strip_tags_segments:
  "\<forall>(cls, s)\<in>set segs. set cls \<subseteq> set format_classes \<union> set color_classes \<Longrightarrow>
     strip_tags False (concat (map (\<lambda>(cls, s). render cls s) segs)) =
       escapeHtml (concat (map snd segs))"
  by (induction segs) (auto simp: strip_tags_render escapeHtml_append escapeHtml_Nil)

lemma text_content_segments:
  "\<forall>(cls, s)\<in>set segs. set cls \<subseteq> set format_classes \<union> set color_classes \<Longrightarrow>
     text_content (concat (map (\<lambda>(cls, s). render cls s) segs)) = concat (map snd segs)"
  by (simp add: text_content_def strip_tags_segments unescapeHtml_escapeHtml)

lemma class_names_Nil: "class_names [] = []"
  by (simp add: class_names_def)

lemma class_names_segments:
  "\<forall>(cls, s)\<in>set segs. set cls \<subseteq> set format_classes \<union> set color_classes \<Longrightarrow>
     class_names (concat (map (\<lambda>(cls, s). render cls s) segs)) = concat (map fst segs)"
  by (induction segs) (auto simp: class_names_render class_names_Nil)

subsection \<open>Evaluation, and the state after a number of iterations\<close>

lemmas eval_defs =
  formatMessageBoardText_def split_codes_def code_char_def init_state_def step_def
  formatMap_def formatMap_entries_def append_piece_def classesToApply_def render_def
  escapeHtml_def replace_char_def special_char_def map_esc_def map_entries_def set_add_def
  piece_text_def state_after_def

lemma state_after_Suc:
  "k < length (split_codes text) \<Longrightarrow>
     state_after (Suc k) text = step k (split_codes text ! k) (state_after k text)"
  by (simp add: state_after_def take_Suc_conv_app_nth loop_append)

lemma state_after_0: "state_after 0 text = init_state"
  by (simp add: state_after_def)

lemma state_after_final:
  "length (split_codes text) \<le> k \<Longrightarrow> formatMessageBoardText text = formattedHtml (state_after k text)"
  by (simp add: state_after_def formatMessageBoardText_def)

subsection \<open>The texts of the segments\<close>

lemma piece_text_even:
  "i mod 2 = 0 \<Longrightarrow> piece_text i part = (if part = [] then None else Some part)"
  by (simp add: piece_text_def)

lemma piece_text_code:
  "i mod 2 = 1 \<Longrightarrow> code_char d \<Longrightarrow>
     piece_text i [d] = (if recognised d then None else Some [CHR ''&'', d])"
  by (simp add: piece_text_def recognised_def split: option.split)

lemma segments_mod: "segments (Suc (Suc i)) parts st = segments i parts st"
  by (induction parts arbitrary: i st) (simp_all add: step_mod piece_text_def)

lemma remove_codes_Cons:
  "c \<noteq> CHR ''&'' \<Longrightarrow> remove_codes (c # r) = c # remove_codes r"
  by (cases r) simp_all

lemma remove_codes_skip:
  "\<not> (c = CHR ''&'' \<and> code_char d) \<Longrightarrow>
     remove_codes (c # d # rest) = c # remove_codes (d # rest)"
  by (auto simp: recognised_def)

lemma remove_codes_match:
  "code_char d \<Longrightarrow>
     remove_codes (CHR ''&'' # d # rest) =
       (if recognised d then [] else [CHR ''&'', d]) @ remove_codes rest"
proof -
  assume "code_char d"
  with marker_not_code have "d \<noteq> CHR ''&''" by blast
  then show ?thesis by (simp add: remove_codes_Cons)
qed

lemma segments_texts:
  "concat (map snd (segments 0 (split_scan cur t) st)) = cur @ remove_codes t"
proof (induction cur t arbitrary: st rule: split_scan.induct)
  case (1 cur)
  show ?case by (simp add: piece_text_even)
next
  case (2 cur c)
  show ?case by (simp add: piece_text_even)
next
  case (3 cur c d rest)
  show ?case
  proof (cases "c = CHR ''&'' \<and> code_char d")
    case True
    then have "split_scan cur (c # d # rest) = cur # [d] # split_scan [] rest"
      by simp
    then have "concat (map snd (segments 0 (split_scan cur (c # d # rest)) st)) =
        cur @ (if recognised d then [] else [CHR ''&'', d]) @
          concat (map snd (segments 0 (split_scan [] rest) (step (Suc 0) [d] (step 0 cur st))))"
      using True by (simp add: piece_text_even piece_text_code segments_mod)
    also have "\<dots> = cur @ (if recognised d then [] else [CHR ''&'', d]) @ remove_codes rest"
      using "3.IH"(1) [OF True] by simp
    also have "\<dots> = cur @ remove_codes (c # d # rest)"
      using True by (simp only: remove_codes_match)
    finally show ?thesis .
  next
    case False
    then have "split_scan cur (c # d # rest) = split_scan (cur @ [c]) (d # rest)"
      by (rule split_scan_skip)
    with "3.IH"(2) [OF False] remove_codes_skip [OF False] show ?thesis
      by simp
  qed
qed

lemma segments_ok:
  "\<forall>(cls, s)\<in>set (segments 0 (split_codes text) init_state).
     set cls \<subseteq> set format_classes \<union> set color_classes"
  using segments_classes [OF init_state_ok] by blast

subsection \<open>Unmatched markers, colour runs, reset and format codes\<close>

lemma text_content_output:
  "text_content (formatMessageBoardText text) = remove_codes text"
proof -
  have "text_content (formatMessageBoardText text) =
          concat (map snd (segments 0 (split_codes text) init_state))"
    unfolding formatMessageBoardText_segments
    using segments_ok by (rule text_content_segments)
  also have "\<dots> = remove_codes text"
    by (simp add: split_codes_def segments_texts)
  finally show ?thesis .
qed

lemma split_scan_marker_first:
  assumes "post = [] \<or> \<not> code_char (hd post)"
  shows "split_scan cur (CHR ''&'' # post) =
           (cur @ CHR ''&'' # hd (split_scan [] post)) # tl (split_scan [] post)"
proof (cases post)
  case Nil
  then show ?thesis by simp
next
  case (Cons d r)
  with assms have "\<not> code_char d" by simp
  then have "split_scan cur (CHR ''&'' # d # r) = split_scan (cur @ [CHR ''&'']) (d # r)"
    by simp
  also have "\<dots> = ((cur @ [CHR ''&'']) @ hd (split_scan [] (d # r))) # tl (split_scan [] (d # r))"
    by (rule split_scan_cur)
  finally show ?thesis using Cons by simp
qed

lemma split_scan_unmatched_marker:
  assumes "post = [] \<or> \<not> code_char (hd post)"
  shows "split_scan cur (pre @ CHR ''&'' # post) =
           butlast (split_scan cur pre) @
           [last (split_scan cur pre) @ CHR ''&'' # hd (split_scan [] post)] @
           tl (split_scan [] post)"
proof (induction cur pre rule: split_scan.induct)
  case (1 cur)
  show ?case using split_scan_marker_first [OF assms] by simp
next
  case (2 cur c)
  have "split_scan cur ([c] @ CHR ''&'' # post) = split_scan (cur @ [c]) (CHR ''&'' # post)"
    using marker_not_code by simp
  then show ?case using split_scan_marker_first [OF assms, of "cur @ [c]"] by simp
next
  case (3 cur c d rest)
  show ?case
  proof (cases "c = CHR ''&'' \<and> code_char d")
    case True
    with "3.IH"(1) [OF True] show ?thesis
      by (simp add: split_scan_not_Nil)
  next
    case False
    with "3.IH"(2) [OF False] show ?thesis
      by (simp add: split_scan_skip del: split_scan.simps(3))
  qed
qed

lemma remove_codes_marker_first:
  assumes "post = [] \<or> \<not> code_char (hd post)"
  shows "remove_codes (CHR ''&'' # post) = CHR ''&'' # remove_codes post"
  using assms by (cases post) (auto simp: recognised_def)

lemma remove_codes_unmatched_marker:
  assumes "post = [] \<or> \<not> code_char (hd post)"
  shows "remove_codes (pre @ CHR ''&'' # post) = remove_codes pre @ CHR ''&'' # remove_codes post"
proof (induction pre rule: remove_codes.induct)
  case 1
  show ?case using remove_codes_marker_first [OF assms] by simp
next
  case (2 c)
  have "\<not> recognised (CHR ''&'')"
    using marker_not_code by (simp add: recognised_def)
  then show ?case using remove_codes_marker_first [OF assms] by simp
next
  case (3 c d rest)
  then show ?case by simp
qed

lemma split_scan_follower:
  assumes "\<not> (d = CHR ''&'' \<and> r \<noteq> [] \<and> code_char (hd r))"
  shows "hd (split_scan [] (d # r)) = d # hd (split_scan [] r)"
proof (cases r)
  case Nil
  then show ?thesis by simp
next
  case (Cons e r')
  with assms have "\<not> (d = CHR ''&'' \<and> code_char e)" by simp
  then have "split_scan [] (d # e # r') = split_scan [d] (e # r')"
    using split_scan_skip [of d e "[]" r'] by simp
  also have "\<dots> = ([d] @ hd (split_scan [] (e # r'))) # tl (split_scan [] (e # r'))"
    by (rule split_scan_cur)
  finally show ?thesis using Cons by simp
qed

lemma state_after_prefix:
  assumes "take k (split_codes a) = take k (split_codes b)"
  shows "state_after k a = state_after k b"
  using assms by (simp add: state_after_def)

lemma formatMap_color:
  "d \<in> set ''012345'' \<Longrightarrow>
     code_char d \<and> formatMap [CHR ''&'', d] = Some (''message-color-'' @ [d]) \<and>
     ''message-color-'' @ [d] \<in> set color_classes"
  by (auto simp: code_char_def formatMap_def formatMap_entries_def color_classes_def)

lemma step_color_code:
  assumes "d \<in> set ''012345''" and "i mod 2 = 1"
  shows "step i [d] st = st\<lparr>activeColorClass := Some (''message-color-'' @ [d])\<rparr>"
  using formatMap_color [OF assms(1)] assms(2) by (simp add: step_odd_color)

lemma codes_Cons: "codes (c # cs) = CHR ''&'' # c # codes cs"
  by (simp add: codes_def)

lemma codes_Nil: "codes [] = []"
  by (simp add: codes_def)

lemma loop_color_run:
  "cs \<noteq> [] \<Longrightarrow> set cs \<subseteq> set ''012345'' \<Longrightarrow>
     loop 0 (split_scan cur (codes cs @ rest)) st =
     loop 0 (split_scan cur (CHR ''&'' # last cs # rest)) st"
proof (induction cs arbitrary: cur st)
  case Nil
  then show ?case by simp
next
  case (Cons c cs)
  show ?case
  proof (cases "cs = []")
    case True
    then show ?thesis by (simp add: codes_Cons codes_Nil)
  next
    case False
    from Cons.prems have c: "c \<in> set ''012345''" and cs: "set cs \<subseteq> set ''012345''"
      by simp_all
    from False cs have l: "last cs \<in> set ''012345''"
      using last_in_set by blast
    have cc: "code_char c" "code_char (last cs)"
      using formatMap_color c l by blast+
    let ?st = "step 0 cur st"
    have "loop 0 (split_scan cur (codes (c # cs) @ rest)) st =
            loop 0 (split_scan [] (codes cs @ rest)) (step 1 [c] ?st)"
      using loop_split_code [OF cc(1)] by (simp add: codes_Cons)
    also have "\<dots> = loop 0 (split_scan [] (CHR ''&'' # last cs # rest)) (step 1 [c] ?st)"
      using Cons.IH [OF False cs] .
    also have "\<dots> = loop 0 (split_scan [] rest) (step 1 [last cs] (step 0 [] (step 1 [c] ?st)))"
      by (rule loop_split_code [OF cc(2)])
    also have "step 1 [last cs] (step 0 [] (step 1 [c] ?st)) = step 1 [last cs] ?st"
      by (simp add: step_even step_color_code [OF c] step_color_code [OF l])
    also have "loop 0 (split_scan [] rest) (step 1 [last cs] ?st) =
                 loop 0 (split_scan cur (CHR ''&'' # last cs # rest)) st"
      by (rule loop_split_code [OF cc(2), symmetric])
    finally show ?thesis using False by simp
  qed
qed

lemma format_color_run:
  assumes "cs \<noteq> []" and "set cs \<subseteq> set ''012345''"
  shows "formatMessageBoardText (pre @ codes cs @ rest) =
         formatMessageBoardText (pre @ codes [last cs] @ rest)"
proof -
  from assms(1) obtain c cs' where cs: "cs = c # cs'"
    by (cases cs) auto
  have "loop 0 (split_scan cur (CHR ''&'' # c # codes cs' @ rest)) st =
        loop 0 (split_scan cur (CHR ''&'' # last cs # rest)) st" for cur st
    using loop_color_run [OF assms, of cur rest st] by (simp add: cs codes_Cons)
  then have "loop 0 (split_scan [] (pre @ CHR ''&'' # c # codes cs' @ rest)) init_state =
        loop 0 (split_scan [] (pre @ CHR ''&'' # last cs # rest)) init_state"
    by (rule loop_prefix_cong)
  then show ?thesis
    by (simp add: formatMessageBoardText_def split_codes_def cs codes_Cons codes_Nil)
qed

lemma state_color_run:
  assumes "cs \<noteq> []" and "set cs \<subseteq> set ''012345''"
  shows "loop 0 (split_codes (codes cs)) st =
         st\<lparr>activeColorClass := Some (''message-color-'' @ [last cs])\<rparr>"
proof -
  from assms have l: "last cs \<in> set ''012345''"
    using last_in_set by blast
  have "loop 0 (split_scan [] (codes cs @ [])) st =
        loop 0 (split_scan [] (CHR ''&'' # last cs # [])) st"
    using assms by (rule loop_color_run)
  also have "\<dots> = loop 0 (split_scan [] []) (step 1 [last cs] (step 0 [] st))"
    using formatMap_color [OF l] by (intro loop_split_code) simp
  also have "\<dots> = st\<lparr>activeColorClass := Some (''message-color-'' @ [last cs])\<rparr>"
    by (simp add: step_even step_color_code [OF l])
  finally show ?thesis by (simp add: split_codes_def)
qed

lemma formatMap_reset: "formatMap ''&r'' = Some ''message-format-reset''"
  by (simp add: formatMap_def formatMap_entries_def)

lemma step_reset_code:
  "i mod 2 = 1 \<Longrightarrow> step i ''r'' st = st\<lparr>activeClasses := [], activeColorClass := None\<rparr>"
  using formatMap_reset by (simp add: step_odd_reset)

lemma reset_not_format: "''message-format-reset'' \<notin> set format_classes"
  by (simp add: format_classes_def)

lemma format_code_iff:
  "code_char d \<and> (\<exists>cn\<in>set format_classes. formatMap [CHR ''&'', d] = Some cn) \<longleftrightarrow>
     d \<in> set ''bklmn''"
  by (auto simp: code_char_def formatMap_def formatMap_entries_def format_classes_def)

lemma state_after_formattedHtml:
  assumes "k < length (split_codes text)"
  shows "formattedHtml (state_after (Suc k) text) =
           formattedHtml (state_after k text) @
             (case piece_text k (split_codes text ! k) of
                None \<Rightarrow> []
              | Some s \<Rightarrow>
                  render (activeClasses (state_after k text) @
                            (case activeColorClass (state_after k text) of
                               None \<Rightarrow> [] | Some c \<Rightarrow> [c])) s)"
  unfolding state_after_Suc [OF assms] step_formattedHtml classesToApply_ok(1) [OF state_after_ok]
  by (rule refl)

lemma formatMap_not_italic:
  "code_char d \<Longrightarrow> formatMap [CHR ''&'', d] \<noteq> Some ''message-format-italic''"
  by (auto simp: code_char_def formatMap_def formatMap_entries_def)

lemma step_no_italic:
  assumes "''message-format-italic'' \<notin> set (activeClasses st)"
    and "odd i \<Longrightarrow> \<exists>d. part = [d] \<and> code_char d"
  shows "''message-format-italic'' \<notin> set (activeClasses (step i part st))"
proof (cases "i mod 2 = 1")
  case False
  then have "i mod 2 = 0" by presburger
  with assms(1) show ?thesis by (simp add: step_even append_piece_def)
next
  case odd: True
  then have "odd i" by presburger
  with assms(2) obtain d where d: "part = [d]" "code_char d" by blast
  show ?thesis
  proof (cases "formatMap (CHR ''&'' # part)")
    case None
    with odd assms(1) show ?thesis by (simp add: step_odd_None append_piece_def)
  next
    case (Some cn)
    with d formatMap_not_italic have cn: "cn \<noteq> ''message-format-italic''" by auto
    from formatMap_cases [OF Some] consider
      "cn = ''message-format-reset''" | "cn \<in> set color_classes" | "cn \<in> set format_classes"
      by blast
    then show ?thesis
    proof cases
      case 1
      with odd Some show ?thesis by (simp add: step_odd_reset)
    next
      case 2
      with odd Some assms(1) show ?thesis by (simp add: step_odd_color)
    next
      case 3
      with odd Some assms(1) cn show ?thesis by (simp add: step_odd_format set_add_def)
    qed
  qed
qed

lemma state_after_no_italic:
  "''message-format-italic'' \<notin> set (activeClasses (state_after k text))"
proof (induction k)
  case 0
  show ?case by (simp add: state_after_0 init_state_def)
next
  case (Suc k)
  show ?case
  proof (cases "k < length (split_codes text)")
    case True
    have "\<exists>d. split_codes text ! k = [d] \<and> code_char d" if "odd k"
      using True that unfolding split_codes_def by (rule split_scan_code_parts)
    with Suc.IH show ?thesis
      unfolding state_after_Suc [OF True] by (rule step_no_italic)
  next
    case False
    then have "state_after (Suc k) text = state_after k text"
      by (simp add: state_after_def)
    with Suc.IH show ?thesis by simp
  qed
qed

subsection \<open>The output from a state of the run on\<close>


section \<open>The claims\<close>

subsection \<open>C1: the code \<^verbatim>\<open>&i\<close>\<close>

text \<open>
  C1 does not hold of the code. The table maps \<^verbatim>\<open>&i\<close> to \<^verbatim>\<open>message-format-italic\<close>, but
  the character class of the split has no \<^verbatim>\<open>i\<close>. So a marker followed by \<^verbatim>\<open>i\<close> is never
  a code: both characters go to the pending text, whatever follows, and \<^verbatim>\<open>&iX\<close> is
  formatted as the bare escaped text \<^verbatim>\<open>&amp;iX\<close>, with no span and no italic class. On no
  input does the italic class ever become active.
\<close>

theorem italic_code_not_tokenised:
  "formatMap ''&i'' = Some ''message-format-italic'' \<and>
   \<not> code_char (CHR ''i'') \<and>
   split_scan cur (''&i'' @ rest) = split_scan (cur @ ''&i'') rest \<and>
   split_codes ''&iX'' = [''&iX''] \<and>
   formatMessageBoardText ''&iX'' = ''&amp;iX'' \<and>
   ''message-format-italic'' \<notin> set (activeClasses (state_after k text))"
proof -
  have "formatMap ''&i'' = Some ''message-format-italic''"
    by (simp add: formatMap_def formatMap_entries_def)
  moreover have i: "\<not> code_char (CHR ''i'')"
    by (simp add: code_char_def)
  moreover have "split_scan cur (''&i'' @ rest) = split_scan (cur @ ''&i'') rest"
    using i by (cases rest) simp_all
  moreover have "split_codes ''&iX'' = [''&iX'']"
    using i by (simp add: split_codes_def)
  moreover have "formatMessageBoardText ''&iX'' = ''&amp;iX''"
    by (simp add: eval_defs)
  ultimately show ?thesis
    using state_after_no_italic [of k "text"] by blast
qed

subsection \<open>C2: codes and table entries\<close>

text \<open>
  C2, as stated, fails: on the input \<^verbatim>\<open>&6\<close> the split produces the code character
  \<^verbatim>\<open>6\<close>, and the table has no entry for \<^verbatim>\<open>&6\<close>, so the not-found branch runs.
\<close>

theorem not_found_reachable:
  "split_codes ''&6'' = ['''', ''6'', ''''] \<and>
   formatMap (CHR ''&'' # split_codes ''&6'' ! 1) = None"
  by (simp add: split_codes_def code_char_def formatMap_def formatMap_entries_def)

text \<open>
  C2, amended: every part at an odd index of the split is one character of the split's
  character class. When that character is one of \<^verbatim>\<open>0 1 2 3 4 5 b k l m n r\<close>, its code has
  an entry in the table; when it is one of the other hexadecimal digits
  \<^verbatim>\<open>6 7 8 9 a c d e f A B C D E F\<close> or \<^verbatim>\<open>o\<close>, its code has none, and the not-found branch
  runs.
\<close>

theorem code_table_entries:
  assumes "k < length (split_codes text)" and "odd k"
  shows "\<exists>d. split_codes text ! k = [d] \<and> code_char d \<and>
           (d \<in> set ''012345bklmnr'' \<longrightarrow> formatMap (CHR ''&'' # split_codes text ! k) \<noteq> None) \<and>
           (d \<in> set ''6789acdefABCDEFo'' \<longrightarrow> formatMap (CHR ''&'' # split_codes text ! k) = None)"
proof -
  from assms obtain d where d: "split_codes text ! k = [d]" "code_char d"
    unfolding split_codes_def by (blast dest: split_scan_code_parts)
  have a: "formatMap [CHR ''&'', d] \<noteq> None" if "d \<in> set ''012345bklmnr''"
  proof -
    from that have "recognised d" by (simp only: recognised_iff)
    then show ?thesis by (auto simp: recognised_def split: option.splits)
  qed
  have "d \<in> set ''6789acdefABCDEFIo''" if "d \<in> set ''6789acdefABCDEFo''"
    using that by auto
  then have b: "formatMap [CHR ''&'', d] = None" if "d \<in> set ''6789acdefABCDEFo''"
    using that unknown_iff [of d] by blast
  show ?thesis
  proof (intro exI [of _ d] conjI impI)
    show "split_codes text ! k = [d]" by (rule d(1))
    show "code_char d" by (rule d(2))
    show "formatMap (CHR ''&'' # split_codes text ! k) \<noteq> None" if "d \<in> set ''012345bklmnr''"
      unfolding d(1) using that by (rule a)
    show "formatMap (CHR ''&'' # split_codes text ! k) = None" if "d \<in> set ''6789acdefABCDEFo''"
      unfolding d(1) using that by (rule b)
  qed
qed

text \<open>
  The amended C2 at the input \<^verbatim>\<open>a&6b&1\<close>: part 1 is \<^verbatim>\<open>6\<close>, without entry, and part 3
  is \<^verbatim>\<open>1\<close>, with one.
\<close>

theorem code_table_entries_witness:
  "split_codes ''a&6b&1'' = [''a'', ''6'', ''b'', ''1'', ''''] \<and>
   code_char (CHR ''6'') \<and> formatMap ''&6'' = None \<and>
   code_char (CHR ''1'') \<and> formatMap ''&1'' \<noteq> None"
proof -
  have parts: "split_codes ''a&6b&1'' = [''a'', ''6'', ''b'', ''1'', '''']"
    by (simp add: split_codes_def code_char_def)
  from code_table_entries [of 1 "''a&6b&1''"] code_table_entries [of 3 "''a&6b&1''"]
  show ?thesis
    by (simp add: parts numeral_3_eq_3)
qed

subsection \<open>C3: the text content of the output\<close>

text \<open>
  C3, as stated, fails: the text content of the output for \<^verbatim>\<open>&1Hello\<close> is
  \<^verbatim>\<open>Hello\<close>, without the code \<^verbatim>\<open>&1\<close>.
\<close>

theorem text_content_drops_code:
  \<open>formatMessageBoardText ''&1Hello'' = ''<span class="message-color-1">Hello</span>'' \<and>
   text_content (formatMessageBoardText ''&1Hello'') = ''Hello'' \<and>
   text_content (formatMessageBoardText ''&1Hello'') \<noteq> ''&1Hello''\<close>
proof -
  have \<open>formatMessageBoardText ''&1Hello'' = ''<span class="message-color-1">Hello</span>''\<close>
    by (simp add: eval_defs)
  then show ?thesis
    by (simp add: text_content_def)
qed

text \<open>
  C3, amended: for every input, the text content of the output (tags dropped, character
  references decoded) is the input without its recognised codes, everything else in the
  original order. A code is recognised when the split captures its character and the table
  has its entry, as for \<^verbatim>\<open>0 1 2 3 4 5 b k l m n r\<close>; unmatched markers and codes without
  entry are kept.
\<close>

theorem text_content_formatMessageBoardText:
  "text_content (formatMessageBoardText text) = remove_codes text \<and>
   (d \<in> set ''012345bklmnr'' \<longrightarrow> recognised d)"
  by (simp add: text_content_output recognised_iff)

text \<open>The amended C3 at the input \<^verbatim>\<open>&1a<&zb&6&\<close>.\<close>

theorem text_content_formatMessageBoardText_witness:
  "CHR ''1'' \<in> set ''012345bklmnr'' \<and> recognised (CHR ''1'') \<and>
   remove_codes ''&1a<&zb&6&'' = ''a<&zb&6&'' \<and>
   text_content (formatMessageBoardText ''&1a<&zb&6&'') = ''a<&zb&6&''"
  using text_content_formatMessageBoardText [of "''&1a<&zb&6&''" "CHR ''1''"]
  by (simp add: recognised_iff)

subsection \<open>C4: unmatched markers\<close>

text \<open>
  C4, as stated, fails for the follower: in \<^verbatim>\<open>&&1\<close> the first marker is followed by
  \<^verbatim>\<open>&\<close>, which is outside the class, and is emitted as \<^verbatim>\<open>&amp;\<close>; but its follower is
  the marker of the code \<^verbatim>\<open>&1\<close>, which is consumed and appears nowhere in the output.
\<close>

theorem follower_may_be_code:
  "\<not> code_char (CHR ''&'') \<and>
   split_codes ''&&1'' = [''&'', ''1'', ''''] \<and>
   formatMessageBoardText ''&&1'' = ''&amp;'' \<and>
   text_content (formatMessageBoardText ''&&1'') = ''&''"
proof -
  have "formatMessageBoardText ''&&1'' = ''&amp;''"
    by (simp add: eval_defs)
  then show ?thesis
    by (simp add: text_content_def split_codes_def code_char_def)
qed

text \<open>
  C4, amended: a marker that is last in the input, or followed by a character outside the
  character class of the split, is never part of a code. It lies inside a text part of the split,
  between the text that ends the split of what precedes it and the text that begins the split
  of what follows it; the iteration on that part appends it, escaped (the marker as
  \<^verbatim>\<open>&amp;\<close>), with the classes active after what precedes; and in the text content of
  the output the marker stands between the contents of what precedes and what follows. Its
  follower is the next character of the same text part, unless the follower is itself a marker
  followed by a character of the class (then it begins a code of its own).
\<close>

theorem unmatched_marker_literal:
  assumes "post = [] \<or> \<not> code_char (hd post)"
  shows "split_codes (pre @ CHR ''&'' # post) =
           butlast (split_codes pre) @
           [last (split_codes pre) @ CHR ''&'' # hd (split_codes post)] @
           tl (split_codes post) \<and>
         state_after (length (split_codes pre) - 1) (pre @ CHR ''&'' # post) =
           state_after (length (split_codes pre) - 1) pre \<and>
         state_after (length (split_codes pre)) (pre @ CHR ''&'' # post) =
           append_piece (state_after (length (split_codes pre) - 1) pre)
             (last (split_codes pre) @ CHR ''&'' # hd (split_codes post)) \<and>
         escapeHtml (last (split_codes pre) @ CHR ''&'' # hd (split_codes post)) =
           escapeHtml (last (split_codes pre)) @ ''&amp;'' @ escapeHtml (hd (split_codes post)) \<and>
         text_content (formatMessageBoardText (pre @ CHR ''&'' # post)) =
           text_content (formatMessageBoardText pre) @
           CHR ''&'' # text_content (formatMessageBoardText post) \<and>
         (\<forall>d r. post = d # r \<longrightarrow> \<not> (d = CHR ''&'' \<and> r \<noteq> [] \<and> code_char (hd r)) \<longrightarrow>
            hd (split_codes post) = d # hd (split_codes r))"
proof -
  let ?P = "split_codes pre"
  let ?t = "last ?P @ CHR ''&'' # hd (split_codes post)"
  let ?k = "length ?P - 1"
  let ?text = "pre @ CHR ''&'' # post"
  have P: "?P \<noteq> []" and oddP: "odd (length ?P)"
    by (simp_all add: split_codes_def split_scan_not_Nil split_scan_odd)
  have parts: "split_codes ?text = butlast ?P @ [?t] @ tl (split_codes post)"
    unfolding split_codes_def by (rule split_scan_unmatched_marker [OF assms])
  have len: "length (butlast ?P) = ?k"
    by simp
  have k: "Suc ?k = length ?P" "?k mod 2 = 0"
    using P oddP by (cases "length ?P", simp, simp)+
  have tk: "take ?k (split_codes ?text) = take ?k ?P"
    unfolding parts by (simp add: butlast_conv_take)
  have nth: "split_codes ?text ! ?k = ?t"
    unfolding parts using len by (metis append_Cons nth_append_length)
  have lt: "?k < length (split_codes ?text)"
    unfolding parts by simp
  have s1: "state_after ?k ?text = state_after ?k pre"
    using tk by (rule state_after_prefix)
  have "state_after (Suc ?k) ?text = step ?k ?t (state_after ?k ?text)"
    using state_after_Suc [OF lt] nth by simp
  also have "\<dots> = append_piece (state_after ?k pre) ?t"
    unfolding s1 using k(2) by (simp add: step_even)
  finally have s2: "state_after (length ?P) ?text = append_piece (state_after ?k pre) ?t"
    using k(1) by simp
  have esc: "escapeHtml ?t = escapeHtml (last ?P) @ ''&amp;'' @ escapeHtml (hd (split_codes post))"
    by (simp add: escapeHtml_append escapeHtml_Cons replace_char_cases)
  have tc: "text_content (formatMessageBoardText ?text) =
      text_content (formatMessageBoardText pre) @
      CHR ''&'' # text_content (formatMessageBoardText post)"
    by (simp add: text_content_output remove_codes_unmatched_marker [OF assms])
  have fol: "\<forall>d r. post = d # r \<longrightarrow> \<not> (d = CHR ''&'' \<and> r \<noteq> [] \<and> code_char (hd r)) \<longrightarrow>
            hd (split_codes post) = d # hd (split_codes r)"
    unfolding split_codes_def using split_scan_follower by blast
  from parts s1 s2 esc tc fol show ?thesis
    by (simp only: simp_thms)
qed

text \<open>
  The amended C4 at the inputs \<^verbatim>\<open>&lA&zB\<close> (a marker before the character \<^verbatim>\<open>z\<close>, with
  the bold format active) and \<^verbatim>\<open>&lA&\<close> (a marker at the end).
\<close>

theorem unmatched_marker_literal_witness:
  \<open>\<not> code_char (hd ''zB'') \<and>
   split_codes ''&lA&zB'' = ['''', ''l'', ''A&zB''] \<and>
   formattedHtml (state_after 3 ''&lA&zB'') =
     ''<span class="message-format-bold">A&amp;zB</span>'' \<and>
   text_content (formatMessageBoardText ''&lA&zB'') = ''A&zB'' \<and>
   split_codes ''&lA&'' = ['''', ''l'', ''A&''] \<and>
   formattedHtml (state_after 3 ''&lA&'') =
     ''<span class="message-format-bold">A&amp;</span>'' \<and>
   text_content (formatMessageBoardText ''&lA&'') = ''A&''\<close>
proof -
  have z: "''zB'' = [] \<or> \<not> code_char (hd ''zB'')"
    by (simp add: code_char_def)
  have e: "([]::string) = [] \<or> \<not> code_char (hd [])"
    by simp
  have P: "split_codes ''&lA'' = ['''', ''l'', ''A'']" "split_codes ''zB'' = [''zB'']"
    "split_codes ''B'' = [''B'']" "split_codes [] = ['''']"
    by (simp_all add: split_codes_def code_char_def)
  have st: "state_after (Suc (Suc 0)) ''&lA'' =
      \<lparr>formattedHtml = [], activeClasses = [''message-format-bold''], activeColorClass = None\<rparr>"
    by (simp add: eval_defs)
  have tc: "text_content (formatMessageBoardText ''&lA'') = ''A''"
    "text_content (formatMessageBoardText ''zB'') = ''zB''"
    "text_content (formatMessageBoardText '''') = ''''"
    by (simp_all add: text_content_output recognised_iff)
  from unmatched_marker_literal [OF z, of "''&lA''"] unmatched_marker_literal [OF e, of "''&lA''"]
  show ?thesis
    by (simp add: P st tc code_char_def append_piece_def classesToApply_def render_def
          escapeHtml_Cons escapeHtml_Nil replace_char_cases numeral_3_eq_3)
qed

subsection \<open>C5: colour codes\<close>

text \<open>
  C5: \<^verbatim>\<open>&1&2Text\<close> gives one segment, \<^verbatim>\<open>Text\<close> with the single class
  \<^verbatim>\<open>message-color-2\<close>. Anywhere in an input, a run of colour codes (\<^verbatim>\<open>&0\<close> to
  \<^verbatim>\<open>&5\<close>) gives the same output as its last code alone, and leaves the class of its last
  code as the active colour. After any number of iterations on any input, the active colour is
  unset or one of the six colour classes.
\<close>

theorem color_exclusive:
  \<open>formatMessageBoardText ''&1&2Text'' = ''<span class="message-color-2">Text</span>'' \<and>
   segments 0 (split_codes ''&1&2Text'') init_state = [([''message-color-2''], ''Text'')] \<and>
   (cs \<noteq> [] \<longrightarrow> set cs \<subseteq> set ''012345'' \<longrightarrow>
      formatMessageBoardText (pre @ codes cs @ rest) =
        formatMessageBoardText (pre @ codes [last cs] @ rest) \<and>
      loop 0 (split_codes (codes cs)) st =
        st\<lparr>activeColorClass := Some (''message-color-'' @ [last cs])\<rparr>) \<and>
   (activeColorClass (state_after k text) = None \<or>
    (\<exists>c\<in>set color_classes. activeColorClass (state_after k text) = Some c))\<close>
proof -
  have \<open>formatMessageBoardText ''&1&2Text'' = ''<span class="message-color-2">Text</span>''\<close>
    by (simp add: eval_defs)
  moreover have "segments 0 (split_codes ''&1&2Text'') init_state = [([''message-color-2''], ''Text'')]"
    by (simp add: eval_defs)
  moreover have "activeColorClass (state_after k text) = None \<or>
    (\<exists>c\<in>set color_classes. activeColorClass (state_after k text) = Some c)"
    using state_after_ok [of k "text"] by (simp add: state_ok_def)
  ultimately show ?thesis
    using format_color_run [of cs pre rest] state_color_run [of cs st] by blast
qed

text \<open>C5 at the run \<^verbatim>\<open>&3&1&2\<close> after the text \<^verbatim>\<open>a\<close>.\<close>

theorem color_exclusive_witness:
  \<open>formatMessageBoardText ''a&3&1&2Text'' = formatMessageBoardText ''a&2Text'' \<and>
   formatMessageBoardText ''a&2Text'' = ''a<span class="message-color-2">Text</span>'' \<and>
   loop 0 (split_codes ''&3&1&2'') init_state =
     init_state\<lparr>activeColorClass := Some ''message-color-2''\<rparr> \<and>
   activeColorClass (state_after 2 ''a&3&1&2Text'') = Some ''message-color-3''\<close>
proof -
  have \<open>formatMessageBoardText ''a&2Text'' = ''a<span class="message-color-2">Text</span>''\<close>
    by (simp add: eval_defs)
  moreover have "activeColorClass (state_after 2 ''a&3&1&2Text'') = Some ''message-color-3''"
    by (simp add: eval_defs numeral_2_eq_2)
  ultimately show ?thesis
    using color_exclusive [of "''312''" "''a''" "''Text''" init_state]
    by (simp add: codes_def)
qed

subsection \<open>C6: the reset code\<close>

text \<open>
  C6: \<^verbatim>\<open>&lBold&rPlain\<close> gives the segment \<^verbatim>\<open>Bold\<close> with the class
  \<^verbatim>\<open>message-format-bold\<close>, then the bare text \<^verbatim>\<open>Plain\<close>. The iteration on a captured
  \<^verbatim>\<open>r\<close> empties the active formats and unsets the active colour in one step and appends
  nothing, in every state and wherever the split of an input has produced \<^verbatim>\<open>r\<close>. After any
  number of iterations on any input, \<^verbatim>\<open>message-format-reset\<close> is not among the active formats.
\<close>

theorem reset_clears_state:
  \<open>formatMessageBoardText ''&lBold&rPlain'' =
     ''<span class="message-format-bold">Bold</span>Plain'' \<and>
   segments 0 (split_codes ''&lBold&rPlain'') init_state =
     [([''message-format-bold''], ''Bold''), ([], ''Plain'')] \<and>
   (odd i \<longrightarrow>
      step i ''r'' st = st\<lparr>activeClasses := [], activeColorClass := None\<rparr> \<and>
      formattedHtml (step i ''r'' st) = formattedHtml st) \<and>
   (j < length (split_codes text) \<longrightarrow> odd j \<longrightarrow> split_codes text ! j = ''r'' \<longrightarrow>
      state_after (Suc j) text =
        (state_after j text)\<lparr>activeClasses := [], activeColorClass := None\<rparr>) \<and>
   ''message-format-reset'' \<notin> set (activeClasses (state_after k text))\<close>
proof -
  have \<open>formatMessageBoardText ''&lBold&rPlain'' =
     ''<span class="message-format-bold">Bold</span>Plain''\<close>
    by (simp add: eval_defs)
  moreover have "segments 0 (split_codes ''&lBold&rPlain'') init_state =
     [([''message-format-bold''], ''Bold''), ([], ''Plain'')]"
    by (simp add: eval_defs)
  moreover have r: "step i ''r'' st = st\<lparr>activeClasses := [], activeColorClass := None\<rparr>"
    if "odd i" for i st
  proof -
    from that have "i mod 2 = 1" by presburger
    then show ?thesis by (rule step_reset_code)
  qed
  moreover have "formattedHtml (step i ''r'' st) = formattedHtml st" if "odd i"
    by (simp add: r [OF that])
  moreover have "state_after (Suc j) text =
        (state_after j text)\<lparr>activeClasses := [], activeColorClass := None\<rparr>"
    if "j < length (split_codes text)" "odd j" "split_codes text ! j = ''r''"
    using that by (simp add: state_after_Suc r)
  moreover have "''message-format-reset'' \<notin> set (activeClasses (state_after k text))"
    using state_after_ok [of k "text"] reset_not_format by (auto simp: state_ok_def)
  ultimately show ?thesis by blast
qed

text \<open>C6 at the input \<^verbatim>\<open>&l&1Bold&rPlain\<close>, whose part 5 is the captured \<^verbatim>\<open>r\<close>.\<close>

theorem reset_clears_state_witness:
  \<open>split_codes ''&l&1Bold&rPlain'' = ['''', ''l'', '''', ''1'', ''Bold'', ''r'', ''Plain''] \<and>
   state_after 5 ''&l&1Bold&rPlain'' =
     \<lparr>formattedHtml = ''<span class="message-format-bold message-color-1">Bold</span>'',
      activeClasses = [''message-format-bold''],
      activeColorClass = Some ''message-color-1''\<rparr> \<and>
   state_after 6 ''&l&1Bold&rPlain'' =
     \<lparr>formattedHtml = ''<span class="message-format-bold message-color-1">Bold</span>'',
      activeClasses = [], activeColorClass = None\<rparr> \<and>
   ''message-format-reset'' \<notin> set (activeClasses (state_after 6 ''&l&1Bold&rPlain''))\<close>
proof -
  have parts: "split_codes ''&l&1Bold&rPlain'' = ['''', ''l'', '''', ''1'', ''Bold'', ''r'', ''Plain'']"
    by (simp add: split_codes_def code_char_def)
  have five: "5 = Suc (Suc (Suc (Suc (Suc 0))))" and six: "6 = Suc 5"
    by simp_all
  have st: \<open>state_after 5 ''&l&1Bold&rPlain'' =
     \<lparr>formattedHtml = ''<span class="message-format-bold message-color-1">Bold</span>'',
      activeClasses = [''message-format-bold''],
      activeColorClass = Some ''message-color-1''\<rparr>\<close>
    unfolding five by (simp add: eval_defs)
  from reset_clears_state [of 1 init_state 5 "''&l&1Bold&rPlain''" 6]
  show ?thesis
    unfolding six by (simp add: parts st)
qed

subsection \<open>C7: format codes and the class list of a segment\<close>

text \<open>
  C7: \<^verbatim>\<open>&l&nBoth\<close> gives one segment, \<^verbatim>\<open>Both\<close> with the classes
  \<^verbatim>\<open>message-format-bold\<close> then \<^verbatim>\<open>message-format-underline\<close>. On every input, the output
  is its segments rendered one after the other, and what an iteration appends is rendered
  with the active formats, in their order, followed by the active colour if set; the classes
  are joined with spaces in one span, and an empty class list gives the bare escaped text.
  A code whose table entry is a format class (as \<^verbatim>\<open>&b &k &l &m &n\<close>) puts the class at the
  end of the active formats when it is not yet active, and changes nothing when it is.
\<close>

theorem formats_stack_in_order:
  \<open>formatMessageBoardText ''&l&nBoth'' =
     ''<span class="message-format-bold message-format-underline">Both</span>'' \<and>
   segments 0 (split_codes ''&l&nBoth'') init_state =
     [([''message-format-bold'', ''message-format-underline''], ''Both'')] \<and>
   formatMessageBoardText text =
     concat (map (\<lambda>(cls, s). render cls s) (segments 0 (split_codes text) init_state)) \<and>
   (k < length (split_codes text) \<longrightarrow>
      formattedHtml (state_after (Suc k) text) =
        formattedHtml (state_after k text) @
          (case piece_text k (split_codes text ! k) of
             None \<Rightarrow> []
           | Some s \<Rightarrow>
               render (activeClasses (state_after k text) @
                         (case activeColorClass (state_after k text) of
                            None \<Rightarrow> [] | Some c \<Rightarrow> [c])) s)) \<and>
   render cls s =
     (if cls = [] then escapeHtml s
      else ''<span class="'' @ join_sp cls @ ''">'' @ escapeHtml s @ ''</span>'') \<and>
   (d \<in> set ''bklmn'' \<longrightarrow>
      code_char d \<and> (\<exists>cn\<in>set format_classes. formatMap [CHR ''&'', d] = Some cn)) \<and>
   (odd i \<longrightarrow> formatMap (CHR ''&'' # part) = Some cn \<longrightarrow> cn \<in> set format_classes \<longrightarrow>
      step i part st =
        st\<lparr>activeClasses :=
             (if cn \<in> set (activeClasses st) then activeClasses st
              else activeClasses st @ [cn])\<rparr> \<and>
      (cn \<in> set (activeClasses st) \<longrightarrow> step i part st = st))\<close>
proof -
  have \<open>formatMessageBoardText ''&l&nBoth'' =
     ''<span class="message-format-bold message-format-underline">Both</span>''\<close>
    by (simp add: eval_defs)
  moreover have "segments 0 (split_codes ''&l&nBoth'') init_state =
     [([''message-format-bold'', ''message-format-underline''], ''Both'')]"
    by (simp add: eval_defs)
  moreover have \<open>render cls s =
     (if cls = [] then escapeHtml s
      else ''<span class="'' @ join_sp cls @ ''">'' @ escapeHtml s @ ''</span>'')\<close>
    by (simp add: render_def)
  moreover have "step i part st =
        st\<lparr>activeClasses :=
             (if cn \<in> set (activeClasses st) then activeClasses st
              else activeClasses st @ [cn])\<rparr> \<and>
      (cn \<in> set (activeClasses st) \<longrightarrow> step i part st = st)"
    if "odd i" "formatMap (CHR ''&'' # part) = Some cn" "cn \<in> set format_classes"
  proof -
    from that(1) have "i mod 2 = 1" by presburger
    from step_odd_format [OF this that(2,3)] show ?thesis
      by (simp add: set_add_def)
  qed
  ultimately show ?thesis
    using state_after_formattedHtml [of k "text"] format_code_iff [of d]
      formatMessageBoardText_segments [of "text"]
    by blast
qed

text \<open>
  C7 at the input \<^verbatim>\<open>&l&n&lBoth\<close>: the second \<^verbatim>\<open>&l\<close> (part 5) changes nothing, and part 6
  is appended with the two formats in the order of their first insertion.
\<close>

theorem formats_stack_in_order_witness:
  \<open>split_codes ''&l&n&lBoth'' = ['''', ''l'', '''', ''n'', '''', ''l'', ''Both''] \<and>
   CHR ''l'' \<in> set ''bklmn'' \<and>
   formatMap ''&l'' = Some ''message-format-bold'' \<and>
   activeClasses (state_after 5 ''&l&n&lBoth'') =
     [''message-format-bold'', ''message-format-underline''] \<and>
   step 5 ''l'' (state_after 5 ''&l&n&lBoth'') = state_after 5 ''&l&n&lBoth'' \<and>
   formattedHtml (state_after 7 ''&l&n&lBoth'') =
     formattedHtml (state_after 6 ''&l&n&lBoth'') @
     ''<span class="message-format-bold message-format-underline">Both</span>''\<close>
proof -
  have parts: "split_codes ''&l&n&lBoth'' = ['''', ''l'', '''', ''n'', '''', ''l'', ''Both'']"
    by (simp add: split_codes_def code_char_def)
  have five: "5 = Suc (Suc (Suc (Suc (Suc 0))))" and six: "6 = Suc 5" and seven: "7 = Suc 6"
    by simp_all
  have st5: "state_after 5 ''&l&n&lBoth'' =
     \<lparr>formattedHtml = [], activeClasses = [''message-format-bold'', ''message-format-underline''],
      activeColorClass = None\<rparr>"
    unfolding five by (simp add: eval_defs)
  have st6: "state_after 6 ''&l&n&lBoth'' =
     \<lparr>formattedHtml = [], activeClasses = [''message-format-bold'', ''message-format-underline''],
      activeColorClass = None\<rparr>"
    unfolding six five by (simp add: eval_defs)
  have fm: "formatMap (CHR ''&'' # ''l'') = Some ''message-format-bold''"
    "''message-format-bold'' \<in> set format_classes"
    by (simp_all add: formatMap_def formatMap_entries_def format_classes_def)
  from formats_stack_in_order
         [of "''&l&n&lBoth''" 6 _ _ "CHR ''l''" 5 "''l''" "''message-format-bold''"
            "state_after 5 ''&l&n&lBoth''"]
  show ?thesis
    unfolding seven
    by (simp add: parts fm st5 st6 piece_text_def render_def escapeHtml_Cons escapeHtml_Nil
          replace_char_cases)
qed

subsection \<open>C8: inputs without marker\<close>

text \<open>
  C8: an input without the marker \<^verbatim>\<open>&\<close> is formatted as its escaped text, and
  \<^verbatim>\<open>escapeHtml\<close> replaces each of the five characters \<^verbatim>\<open>& < > " '\<close> by its character
  reference and copies every other character.
\<close>

theorem no_code_identity:
  "(CHR ''&'' \<notin> set text \<longrightarrow> formatMessageBoardText text = escapeHtml text) \<and>
   escapeHtml text =
     concat (map (\<lambda>c. if c = CHR ''&'' then ''&amp;''
                        else if c = CHR ''<'' then ''&lt;''
                        else if c = CHR ''>'' then ''&gt;''
                        else if c = CHR 0x22 then ''&quot;''
                        else if c = CHR 0x27 then ''&#039;''
                        else [c]) text)"
proof
  show "CHR ''&'' \<notin> set text \<longrightarrow> formatMessageBoardText text = escapeHtml text"
  proof
    assume "CHR ''&'' \<notin> set text"
    then have parts: "split_codes text = [text]"
      by (simp add: split_codes_def split_scan_no_marker)
    have "classesToApply init_state = []"
      by (simp add: classesToApply_def init_state_def)
    then have "formattedHtml (step 0 text init_state) = escapeHtml text"
      by (simp add: step_even append_piece_def render_Nil init_state_def escapeHtml_Nil)
    with parts show "formatMessageBoardText text = escapeHtml text"
      by (simp add: formatMessageBoardText_def)
  qed
next
  have "replace_char = (\<lambda>c. if c = CHR ''&'' then ''&amp;''
                        else if c = CHR ''<'' then ''&lt;''
                        else if c = CHR ''>'' then ''&gt;''
                        else if c = CHR 0x22 then ''&quot;''
                        else if c = CHR 0x27 then ''&#039;''
                        else [c])"
    by (rule ext) (rule replace_char_cases)
  then show "escapeHtml text =
     concat (map (\<lambda>c. if c = CHR ''&'' then ''&amp;''
                        else if c = CHR ''<'' then ''&lt;''
                        else if c = CHR ''>'' then ''&gt;''
                        else if c = CHR 0x22 then ''&quot;''
                        else if c = CHR 0x27 then ''&#039;''
                        else [c]) text)"
    by (simp add: escapeHtml_def)
qed

text \<open>C8 at the input \<^verbatim>\<open><script>\<close>, which has no marker.\<close>

theorem no_code_identity_witness:
  "CHR ''&'' \<notin> set ''<script>'' \<and>
   formatMessageBoardText ''<script>'' = escapeHtml ''<script>'' \<and>
   escapeHtml ''<script>'' = ''&lt;script&gt;''"
  using no_code_identity [of "''<script>''"] by simp

subsection \<open>C9: the class names of the output\<close>

text \<open>
  C9: every class name in the output (the space-separated names in the class attributes of
  its span tags, which are the class lists of the segments) is one of the twelve names
  \<^verbatim>\<open>message-color-0\<close> to \<^verbatim>\<open>message-color-5\<close>, \<^verbatim>\<open>message-format-bold\<close>,
  \<^verbatim>\<open>message-format-strikethrough\<close>, \<^verbatim>\<open>message-format-underline\<close>,
  \<^verbatim>\<open>message-format-italic\<close>, \<^verbatim>\<open>message-format-obfuscated\<close> and
  \<^verbatim>\<open>message-format-reset\<close>.
\<close>

theorem class_names_closed:
  "class_names (formatMessageBoardText text) =
     concat (map fst (segments 0 (split_codes text) init_state)) \<and>
   set (class_names (formatMessageBoardText text)) \<subseteq> set contract_classes"
proof -
  have eq: "class_names (formatMessageBoardText text) =
          concat (map fst (segments 0 (split_codes text) init_state))"
    unfolding formatMessageBoardText_segments
    using segments_ok by (rule class_names_segments)
  have "set (concat (map fst (segments 0 (split_codes text) init_state)))
          \<subseteq> set format_classes \<union> set color_classes"
  proof
    fix x
    assume "x \<in> set (concat (map fst (segments 0 (split_codes text) init_state)))"
    then obtain cls s where
      "(cls, s) \<in> set (segments 0 (split_codes text) init_state)" and "x \<in> set cls"
      by force
    with segments_classes [OF init_state_ok] show "x \<in> set format_classes \<union> set color_classes"
      by blast
  qed
  also have "\<dots> \<subseteq> set contract_classes"
    by (auto simp: contract_classes_def)
  finally show ?thesis
    using eq by simp
qed

text \<open>C9 at the input \<^verbatim>\<open>&l&1Hi&6\<close>.\<close>

theorem class_names_closed_witness:
  "class_names (formatMessageBoardText ''&l&1Hi&6'') =
     [''message-format-bold'', ''message-color-1'', ''message-format-bold'', ''message-color-1''] \<and>
   set (class_names (formatMessageBoardText ''&l&1Hi&6'')) \<subseteq> set contract_classes"
proof -
  have "segments 0 (split_codes ''&l&1Hi&6'') init_state =
          [([''message-format-bold'', ''message-color-1''], ''Hi''),
           ([''message-format-bold'', ''message-color-1''], ''&6'')]"
    by (simp add: eval_defs)
  with class_names_closed [of "''&l&1Hi&6''"] show ?thesis
    by (simp add: contract_classes_def color_classes_def format_classes_def)
qed

subsection \<open>C10: codes without table entry\<close>



end
